theory Spec2Isabelle
  imports Complex_Main "HOL-Library.Multiset"
begin

section \<open>Python values and failures\<close>

text \<open>
  The notebook is plain Python over \<^verbatim>\<open>collections\<close> containers and numpy arrays.
  An exception that would abort a cell is a value \<open>Inl e\<close> of the result.
\<close>

datatype exn = IndexError | KeyError | ValueError

text \<open>
  A Python \<^verbatim>\<open>dict\<close> (and its subclasses \<^verbatim>\<open>defaultdict\<close> and \<^verbatim>\<open>Counter\<close>) keeps its
  keys in insertion order; it is an association list whose keys are distinct, a new
  key going to the end.
\<close>

type_synonym ('k, 'v) pydict = "('k \<times> 'v) list"

definition keys :: "('k, 'v) pydict \<Rightarrow> 'k list" where
  "keys d = map fst d"

section \<open>Vote collection (the cell that builds \<^verbatim>\<open>wls\<close>)\<close>

text \<open>
  \<^verbatim>\<open>
  worker_labels = candidate_labeled_tweets.select("tweet_id", "worker_id", "emotion").collect()
  wls = defaultdict(list)
  for row in worker_labels:
      wls[row.tweet_id].append((row.worker_id, row.emotion))

  def worker_label_generator(t):
      for worker_id, label in wls[t.tweet.name]:
          yield worker_id, label
  \<close>
  A collected row has the three selected columns, all strings of the CSV file.
\<close>

record row =
  tweet_id :: string
  worker_id :: string
  emotion :: string

text \<open>
  \<^verbatim>\<open>d[k]\<close> on a \<^verbatim>\<open>defaultdict(list)\<close>: the stored list when the key is present;
  otherwise \<^verbatim>\<open>__missing__\<close> stores a fresh empty list under the key and returns it.
  The dictionary after the lookup is part of the result.
\<close>

definition dd_getitem :: "'k \<Rightarrow> ('k, 'v list) pydict \<Rightarrow> 'v list \<times> ('k, 'v list) pydict" where
  "dd_getitem k d =
     (case map_of d k of
        Some vs \<Rightarrow> (vs, d)
      | None \<Rightarrow> ([], d @ [(k, [])]))"

text \<open>\<^verbatim>\<open>.append(v)\<close> on the list object stored under \<open>k\<close>: the list is changed in place.\<close>

definition append_at :: "'k \<Rightarrow> 'v \<Rightarrow> ('k, 'v list) pydict \<Rightarrow> ('k, 'v list) pydict" where
  "append_at k v d = map (\<lambda>(k', vs). if k' = k then (k', vs @ [v]) else (k', vs)) d"

type_synonym wls = "(string, (string \<times> string) list) pydict"

definition wls_step :: "wls \<Rightarrow> row \<Rightarrow> wls" where
  "wls_step d r =
     (let (vs, d') = dd_getitem (tweet_id r) d
      in append_at (tweet_id r) (worker_id r, emotion r) d')"

definition collect_votes :: "row list \<Rightarrow> wls" where
  "collect_votes worker_labels = foldl wls_step [] worker_labels"

text \<open>
  The generator, run to its end on the candidate whose \<^verbatim>\<open>t.tweet.name\<close> is \<open>name\<close>:
  the pairs it yields, and \<^verbatim>\<open>wls\<close> as the lookup leaves it.
\<close>

definition worker_label_generator :: "string \<Rightarrow> wls \<Rightarrow> (string \<times> string) list \<times> wls" where
  "worker_label_generator name d =
     (let (vs, d') = dd_getitem name d
      in (map (\<lambda>(worker_id, label). (worker_id, label)) vs, d'))"

text \<open>
  The known label set of the notebook:
  \<^verbatim>\<open>values = list(map(lambda r: r.emotion,
        candidate_labeled_tweets.select("emotion").distinct().collect()))\<close>
  over the same dataframe the votes are collected from. The order of a distinct
  query is not fixed by the engine; first-occurrence order stands for it here, and
  the properties below use \<open>values\<close> as a set only.
\<close>

definition distinct_emotions :: "row list \<Rightarrow> string list" where
  "distinct_emotions worker_labels = rev (remdups (rev (map emotion worker_labels)))"

text \<open>
  The answers a contributor could choose among, as the notebook's task description
  lists them. No code cell refers to this list.
\<close>

definition task_categories :: "string list" where
  "task_categories =
     [''Positive'', ''Negative'', ''I can't tell'',
      ''Neutral / author is just sharing information'',
      ''Tweet not related to weather condition'']"

text \<open>The votes of one item in the input sequence, in input order.\<close>

definition votes_of :: "string \<Rightarrow> row list \<Rightarrow> (string \<times> string) list" where
  "votes_of t worker_labels =
     map (\<lambda>r. (worker_id r, emotion r)) (filter (\<lambda>r. tweet_id r = t) worker_labels)"

section \<open>Gold labels (the cell that builds \<^verbatim>\<open>train_cand_labels\<close>)\<close>

text \<open>
  \<^verbatim>\<open>
  gold_labels = defaultdict(list)
  verbose_labels = dict([(t.tweet_id, t.sentiment)
                         for t in gold_answers.select("tweet_id", "sentiment").collect()])
  for split in range(2):
      cands = session.query(Tweet).filter(Tweet.split == split).order_by(Tweet.id).all()
      for c in cands:
          gold_labels[split].append(values.index(verbose_labels[c.tweet.name]) + 1)
  train_cand_labels = np.array(gold_labels[0])
  test_cand_labels = np.array(gold_labels[1])
  \<close>
  \<^verbatim>\<open>d[k] = v\<close> replaces the value of a present key where it stands and puts a new key
  at the end; \<^verbatim>\<open>dict(pairs)\<close> stores the pairs one after the other, so the last pair
  of a key gives its value.
\<close>

fun dict_setitem :: "'k \<Rightarrow> 'v \<Rightarrow> ('k, 'v) pydict \<Rightarrow> ('k, 'v) pydict" where
  "dict_setitem k v [] = [(k, v)]"
| "dict_setitem k v ((k', v') # d) =
     (if k' = k then (k', v) # d else (k', v') # dict_setitem k v d)"

definition dict_of_pairs :: "('k \<times> 'v) list \<Rightarrow> ('k, 'v) pydict" where
  "dict_of_pairs pairs = foldl (\<lambda>d (k, v). dict_setitem k v d) [] pairs"

definition dict_getitem :: "('k, 'v) pydict \<Rightarrow> 'k \<Rightarrow> exn + 'v" where
  "dict_getitem d k = (case map_of d k of None \<Rightarrow> Inl KeyError | Some v \<Rightarrow> Inr v)"

definition dict_get :: "('k, 'v) pydict \<Rightarrow> 'k \<Rightarrow> 'v \<Rightarrow> 'v" where
  "dict_get d k dflt = (case map_of d k of None \<Rightarrow> dflt | Some v \<Rightarrow> v)"

text \<open>\<^verbatim>\<open>xs.index(x)\<close>: the first position of \<open>x\<close>, ValueError when there is none.\<close>

fun list_index :: "'a list \<Rightarrow> 'a \<Rightarrow> exn + nat" where
  "list_index [] x = Inl ValueError"
| "list_index (y # ys) x =
     (if y = x then Inr 0
      else (case list_index ys x of Inl e \<Rightarrow> Inl e | Inr i \<Rightarrow> Inr (Suc i)))"

text \<open>
  The inner loop over the candidates of one split, a candidate being its
  \<^verbatim>\<open>c.tweet.name\<close>; \<open>acc\<close> is \<^verbatim>\<open>gold_labels[split]\<close> so far. The dictionary lookup
  runs before \<^verbatim>\<open>index\<close>, so a missing tweet raises KeyError first.
\<close>

fun gold_labels_loop ::
  "string list \<Rightarrow> (string, string) pydict \<Rightarrow> string list \<Rightarrow> int list \<Rightarrow> exn + int list" where
  "gold_labels_loop values verbose_labels [] acc = Inr acc"
| "gold_labels_loop values verbose_labels (c # cands) acc =
     (case dict_getitem verbose_labels c of
        Inl e \<Rightarrow> Inl e
      | Inr sentiment \<Rightarrow>
          (case list_index values sentiment of
             Inl e \<Rightarrow> Inl e
           | Inr i \<Rightarrow> gold_labels_loop values verbose_labels cands (acc @ [int i + 1])))"

text \<open>Both splits in turn; the result is (\<^verbatim>\<open>train_cand_labels\<close>, \<^verbatim>\<open>test_cand_labels\<close>).\<close>

definition gold_labels ::
  "string list \<Rightarrow> (string \<times> string) list \<Rightarrow> string list \<Rightarrow> string list
     \<Rightarrow> exn + (int list \<times> int list)" where
  "gold_labels values gold_answers cands0 cands1 =
     (let verbose_labels = dict_of_pairs gold_answers
      in case gold_labels_loop values verbose_labels cands0 [] of
           Inl e \<Rightarrow> Inl e
         | Inr train_cand_labels \<Rightarrow>
             (case gold_labels_loop values verbose_labels cands1 [] of
                Inl e \<Rightarrow> Inl e
              | Inr test_cand_labels \<Rightarrow> Inr (train_cand_labels, test_cand_labels)))"

section \<open>Majority vote and its accuracy (the cell that builds \<^verbatim>\<open>mv\<close>)\<close>

text \<open>
  \<^verbatim>\<open>
  mv = []
  for i in range(L_train.shape[0]):
      c = Counter([L_train[i,j] for j in L_train[i].nonzero()[1]])
      mv.append(c.most_common(1)[0][0])
  mv = np.array(mv)

  n_correct = np.sum([1 for i in range(L_train.shape[0]) if mv[i] == train_cand_labels[i]])
  print(f"Accuracy: {n_correct / float(L_train.shape[0])}")
  \<close>
  \<^verbatim>\<open>L_train\<close> is the sparse label matrix the annotation library returns, in
  compressed sparse row format: a row for each training candidate, a column for each
  worker, a stored entry the integer label of the worker's vote. It is taken as
  given, as the list of its rows, each row the list of its stored entries
  (column, value) in storage order. The format fixes neither the order of the
  columns within a row nor that a column is stored once or with a non-zero value.
\<close>

type_synonym csr_row = "(nat \<times> int) list"

type_synonym label_matrix = "csr_row list"

text \<open>
  \<^verbatim>\<open>L_train[i].nonzero()[1]\<close>: the row goes to coordinate format as it is stored and
  the columns of the stored values other than 0 are returned, in storage order.
\<close>

definition nonzero_cols :: "csr_row \<Rightarrow> nat list" where
  "nonzero_cols r = map fst (filter (\<lambda>(j, v). v \<noteq> 0) r)"

text \<open>\<^verbatim>\<open>L_train[i,j]\<close>: the sum of the values stored for column \<open>j\<close> in row \<open>i\<close>.\<close>

definition matrix_getitem :: "csr_row \<Rightarrow> nat \<Rightarrow> int" where
  "matrix_getitem r j = sum_list (map snd (filter (\<lambda>(j', v). j' = j) r))"

text \<open>The list the counter is built from: \<^verbatim>\<open>[L_train[i,j] for j in L_train[i].nonzero()[1]]\<close>.\<close>

definition row_votes :: "csr_row \<Rightarrow> int list" where
  "row_votes r = map (matrix_getitem r) (nonzero_cols r)"

text \<open>
  \<^verbatim>\<open>Counter(iterable)\<close> runs \<^verbatim>\<open>self[elem] = self.get(elem, 0) + 1\<close> for each element,
  so its keys stand in the order of their first occurrence.
\<close>

definition count_element :: "('a, nat) pydict \<Rightarrow> 'a \<Rightarrow> ('a, nat) pydict" where
  "count_element c elem = dict_setitem elem (dict_get c elem 0 + 1) c"

definition Counter :: "'a list \<Rightarrow> ('a, nat) pydict" where
  "Counter iterable = foldl count_element [] iterable"

text \<open>
  \<^verbatim>\<open>most_common(1)\<close> is \<^verbatim>\<open>heapq.nlargest(1, self.items(), key=itemgetter(1))\<close>, which
  for one element is \<^verbatim>\<open>max(it, default=sentinel, key=key)\<close>: the empty list for no
  items, else the item of the greatest key. \<^verbatim>\<open>max\<close> replaces its candidate only by a
  strictly greater one, which makes the result the first of the greatest.
\<close>

fun py_max :: "('a \<Rightarrow> nat) \<Rightarrow> 'a \<Rightarrow> 'a list \<Rightarrow> 'a" where
  "py_max key best [] = best"
| "py_max key best (x # xs) = py_max key (if key x > key best then x else best) xs"

definition nlargest_1 :: "('a \<Rightarrow> nat) \<Rightarrow> 'a list \<Rightarrow> 'a list" where
  "nlargest_1 key it = (case it of [] \<Rightarrow> [] | x # xs \<Rightarrow> [py_max key x xs])"

definition most_common_1 :: "('a, nat) pydict \<Rightarrow> ('a \<times> nat) list" where
  "most_common_1 c = nlargest_1 snd c"

text \<open>\<^verbatim>\<open>a[i]\<close> for a list or an array and an index that is not negative.\<close>

definition getitem :: "'a list \<Rightarrow> nat \<Rightarrow> exn + 'a" where
  "getitem a i = (if i < length a then Inr (a ! i) else Inl IndexError)"

text \<open>The body of the loop for one list of votes: \<^verbatim>\<open>Counter(votes).most_common(1)[0][0]\<close>.\<close>

definition majority_vote :: "'a list \<Rightarrow> exn + 'a" where
  "majority_vote votes =
     (case getitem (most_common_1 (Counter votes)) 0 of
        Inl e \<Rightarrow> Inl e
      | Inr item \<Rightarrow> Inr (fst item))"

text \<open>The loop over the rows; \<open>mv\<close> is the list built so far.\<close>

fun mv_loop :: "label_matrix \<Rightarrow> int list \<Rightarrow> exn + int list" where
  "mv_loop [] mv = Inr mv"
| "mv_loop (r # rows) mv =
     (case majority_vote (row_votes r) of
        Inl e \<Rightarrow> Inl e
      | Inr l \<Rightarrow> mv_loop rows (mv @ [l]))"

text \<open>
  The list \<^verbatim>\<open>[1 for i in range(n) if mv[i] == train_cand_labels[i]]\<close>; reading an
  array past its end raises IndexError.
\<close>

fun correct_ones :: "int list \<Rightarrow> int list \<Rightarrow> nat list \<Rightarrow> exn + nat list" where
  "correct_ones mv train_cand_labels [] = Inr []"
| "correct_ones mv train_cand_labels (i # is) =
     (case getitem mv i of
        Inl e \<Rightarrow> Inl e
      | Inr a \<Rightarrow>
          (case getitem train_cand_labels i of
             Inl e \<Rightarrow> Inl e
           | Inr b \<Rightarrow>
               (case correct_ones mv train_cand_labels is of
                  Inl e \<Rightarrow> Inl e
                | Inr ones \<Rightarrow> Inr (if a = b then 1 # ones else ones))))"

text \<open>
  Doubles. A finite double is kept as the rational it stands for. The two operations
  of the cell round to the nearest double, ties to even, with 53 significant bits:
  the conversion of an integer and the division. The range of the exponent is not
  modelled: a count of rows is far inside it.
\<close>

text \<open>\<^verbatim>\<open>int.bit_length\<close>: the number of binary digits of \<open>n\<close>.\<close>

fun bit_length :: "nat \<Rightarrow> nat" where
  "bit_length n = (if n = 0 then 0 else Suc (bit_length (n div 2)))"

declare bit_length.simps [simp del]

text \<open>The integer nearest to \<open>N / D\<close> for \<open>D > 0\<close>, the even one of two equally near.\<close>

definition round_half_even :: "nat \<Rightarrow> nat \<Rightarrow> nat" where
  "round_half_even N D =
     (let q = N div D; r = N mod D
      in if 2 * r < D then q
         else if D < 2 * r then q + 1
         else if even q then q else q + 1)"

text \<open>\<^verbatim>\<open>float(n)\<close>: the value of the double nearest to the integer \<open>n\<close>, an integer itself.\<close>

definition float_of_nat :: "nat \<Rightarrow> nat" where
  "float_of_nat n =
     (if bit_length n \<le> 53 then n
      else let s = bit_length n - 53 in round_half_even n (2 ^ s) * 2 ^ s)"

text \<open>
  \<^verbatim>\<open>a / b\<close> for two doubles of integer values, \<open>b > 0\<close>: with \<open>e\<close> the binary exponent
  of the quotient, the quotient is rounded to a multiple of \<open>2 ^ (e - 52)\<close>.
\<close>

definition float_div :: "nat \<Rightarrow> nat \<Rightarrow> rat" where
  "float_div a b =
     (if a = 0 then 0
      else
        let d = int (bit_length a) - int (bit_length b);
            e = (if (if 0 \<le> d then b * 2 ^ nat d \<le> a else b \<le> a * 2 ^ nat (- d))
                 then d else d - 1)
        in if e \<le> 52
           then of_nat (round_half_even (a * 2 ^ nat (52 - e)) b) / 2 ^ nat (52 - e)
           else of_nat (round_half_even a (b * 2 ^ nat (e - 52))) * 2 ^ nat (e - 52))"

text \<open>
  \<^verbatim>\<open>n_correct / float(n)\<close>. \<^verbatim>\<open>np.sum\<close> returns a numpy scalar, which the division
  converts to a double, and numpy's division never raises: a zero divisor gives
  \<^verbatim>\<open>nan\<close> for a zero dividend and \<^verbatim>\<open>inf\<close> for a positive one (with a RuntimeWarning
  on the error stream).
\<close>

datatype np_float = Finite rat | PosInf | NaN

definition np_true_divide :: "nat \<Rightarrow> nat \<Rightarrow> np_float" where
  "np_true_divide a n =
     (if n \<noteq> 0 then Finite (float_div (float_of_nat a) (float_of_nat n))
      else if a = 0 then NaN else PosInf)"

definition n_correct :: "int list \<Rightarrow> int list \<Rightarrow> nat \<Rightarrow> exn + nat" where
  "n_correct mv train_cand_labels n =
     (case correct_ones mv train_cand_labels [0..<n] of
        Inl e \<Rightarrow> Inl e
      | Inr ones \<Rightarrow> Inr (sum_list ones))"

text \<open>The whole cell: the accuracy it prints, or the exception that aborts it.\<close>

definition mv_accuracy :: "label_matrix \<Rightarrow> int list \<Rightarrow> exn + np_float" where
  "mv_accuracy L_train train_cand_labels =
     (case mv_loop L_train [] of
        Inl e \<Rightarrow> Inl e
      | Inr mv \<Rightarrow>
          (case n_correct mv train_cand_labels (length L_train) of
             Inl e \<Rightarrow> Inl e
           | Inr k \<Rightarrow> Inr (np_true_divide k (length L_train))))"

text \<open>The position of the first occurrence of a label in a list of votes.\<close>

definition first_index :: "'a list \<Rightarrow> 'a \<Rightarrow> nat" where
  "first_index xs x = length (takeWhile (\<lambda>y. y \<noteq> x) xs)"

text \<open>The distinct elements of a list in the order of their first occurrence.\<close>

definition first_seen :: "'a list \<Rightarrow> 'a list" where
  "first_seen xs = rev (remdups (rev xs))"

section \<open>Properties of vote collection\<close>

lemma map_of_append_at:
  "map_of (append_at k v d) k' =
     (if k' = k then map_option (\<lambda>vs. vs @ [v]) (map_of d k) else map_of d k')"
  by (induction d) (auto simp: append_at_def)

lemma keys_append_at: "keys (append_at k v d) = keys d"
  by (induction d) (auto simp: append_at_def keys_def)

lemma map_of_snoc_fresh:
  "map_of d k = None \<Longrightarrow> map_of (d @ [(k, v)]) k' = (if k' = k then Some v else map_of d k')"
  by (auto simp: map_add_def split: option.splits)

lemma map_of_wls_step:
  "map_of (wls_step d r) t =
     (if t = tweet_id r
      then Some ((case map_of d t of None \<Rightarrow> [] | Some vs \<Rightarrow> vs) @ [(worker_id r, emotion r)])
      else map_of d t)"
proof (cases "map_of d (tweet_id r)")
  case None
  then show ?thesis
    by (simp add: wls_step_def dd_getitem_def map_of_append_at map_of_snoc_fresh
             del: map_of_append)
next
  case (Some vs)
  then show ?thesis
    by (simp add: wls_step_def dd_getitem_def map_of_append_at)
qed

lemma keys_wls_step:
  "keys (wls_step d r) = (if tweet_id r \<in> set (keys d) then keys d else keys d @ [tweet_id r])"
proof (cases "map_of d (tweet_id r)")
  case None
  then have "tweet_id r \<notin> set (keys d)"
    by (simp add: keys_def map_of_eq_None_iff)
  with None show ?thesis
    by (simp add: wls_step_def dd_getitem_def keys_append_at) (simp add: keys_def)
next
  case (Some vs)
  then have "tweet_id r \<in> set (keys d)"
    using map_of_eq_None_iff [of d "tweet_id r"] by (simp add: keys_def)
  with Some show ?thesis
    by (simp add: wls_step_def dd_getitem_def keys_append_at)
qed

lemma distinct_keys_wls_step: "distinct (keys d) \<Longrightarrow> distinct (keys (wls_step d r))"
  by (simp add: keys_wls_step)

lemma distinct_keys_foldl_wls: "distinct (keys d) \<Longrightarrow> distinct (keys (foldl wls_step d rs))"
  by (induction rs arbitrary: d) (simp_all add: distinct_keys_wls_step)

lemma map_of_foldl_wls:
  "map_of (foldl wls_step d rs) t =
     (case map_of d t of
        Some vs \<Rightarrow> Some (vs @ votes_of t rs)
      | None \<Rightarrow> if votes_of t rs = [] then None else Some (votes_of t rs))"
proof (induction rs arbitrary: d)
  case Nil
  show ?case by (simp add: votes_of_def split: option.splits)
next
  case (Cons r rs)
  show ?case
    by (simp add: Cons.IH map_of_wls_step votes_of_def split: option.splits)
qed

lemma keys_foldl_wls:
  "set (keys (foldl wls_step d rs)) = set (keys d) \<union> tweet_id ` set rs"
  by (induction rs arbitrary: d) (auto simp: keys_wls_step)

lemma votes_of_Nil_iff: "votes_of t rs = [] \<longleftrightarrow> t \<notin> tweet_id ` set rs"
  by (auto simp: votes_of_def filter_empty_conv)

lemma map_of_collect_votes:
  "map_of (collect_votes rs) t = (if votes_of t rs = [] then None else Some (votes_of t rs))"
  by (simp add: collect_votes_def map_of_foldl_wls)

lemma dd_getitem_absent:
  "k \<notin> set (keys d) \<Longrightarrow> dd_getitem k d = ([], d @ [(k, [])])"
  by (simp add: dd_getitem_def keys_def map_of_eq_None_iff [THEN iffD2])

text \<open>
  C8. The collector maps every item of the input sequence to the list of its
  (worker, label) pairs in input order. A pair that occurs twice is kept twice, the
  keys are the items that occur in the input, and an item without a vote has no key.
\<close>

theorem collect_votes_groups:
  "distinct (keys (collect_votes worker_labels)) \<and>
   set (keys (collect_votes worker_labels)) = tweet_id ` set worker_labels \<and>
   map_of (collect_votes worker_labels) t =
     (if t \<in> tweet_id ` set worker_labels
      then Some (map (\<lambda>r. (worker_id r, emotion r))
                  (filter (\<lambda>r. tweet_id r = t) worker_labels))
      else None)"
proof -
  have "distinct (keys (collect_votes worker_labels))"
    unfolding collect_votes_def by (rule distinct_keys_foldl_wls) (simp add: keys_def)
  moreover have "set (keys (collect_votes worker_labels)) = tweet_id ` set worker_labels"
    unfolding collect_votes_def by (simp add: keys_foldl_wls) (simp add: keys_def)
  moreover have "map_of (collect_votes worker_labels) t =
     (if t \<in> tweet_id ` set worker_labels then Some (votes_of t worker_labels) else None)"
    using votes_of_Nil_iff [of t worker_labels] by (simp add: map_of_collect_votes)
  ultimately show ?thesis by (simp add: votes_of_def)
qed

theorem collect_votes_groups_witness:
  "map_of (collect_votes
      [\<lparr>tweet_id = ''A'', worker_id = ''w1'', emotion = ''pos''\<rparr>,
       \<lparr>tweet_id = ''B'', worker_id = ''w1'', emotion = ''neg''\<rparr>,
       \<lparr>tweet_id = ''A'', worker_id = ''w1'', emotion = ''pos''\<rparr>,
       \<lparr>tweet_id = ''A'', worker_id = ''w2'', emotion = ''neg''\<rparr>]) ''A''
     = Some [(''w1'', ''pos''), (''w1'', ''pos''), (''w2'', ''neg'')]"
  using collect_votes_groups
    [of "[\<lparr>tweet_id = ''A'', worker_id = ''w1'', emotion = ''pos''\<rparr>,
          \<lparr>tweet_id = ''B'', worker_id = ''w1'', emotion = ''neg''\<rparr>,
          \<lparr>tweet_id = ''A'', worker_id = ''w1'', emotion = ''pos''\<rparr>,
          \<lparr>tweet_id = ''A'', worker_id = ''w2'', emotion = ''neg''\<rparr>]" "''A''"]
  by simp

text \<open>
  C10. Asking the generator for an item that is not a key of the collected mapping
  raises nothing: it yields no pair, and the lookup leaves a new key for that item,
  bound to the empty list, at the end of the mapping.
\<close>

theorem generator_absent_item_inserts_key:
  assumes "name \<notin> set (keys d)"
  shows "fst (worker_label_generator name d) = [] \<and>
         snd (worker_label_generator name d) = d @ [(name, [])] \<and>
         name \<in> set (keys (snd (worker_label_generator name d))) \<and>
         map_of (snd (worker_label_generator name d)) name = Some []"
proof -
  have "map_of d name = None"
    using assms by (simp add: keys_def map_of_eq_None_iff)
  then have "map_of (d @ [(name, [])]) name = Some ([] :: (string \<times> string) list)"
    by (simp add: map_of_snoc_fresh del: map_of_append)
  then show ?thesis
    using assms by (simp add: worker_label_generator_def dd_getitem_absent keys_def)
qed

theorem generator_absent_item_inserts_key_witness:
  "''B'' \<notin> set (keys (collect_votes [\<lparr>tweet_id = ''A'', worker_id = ''w1'', emotion = ''pos''\<rparr>])) \<and>
   worker_label_generator ''B''
       (collect_votes [\<lparr>tweet_id = ''A'', worker_id = ''w1'', emotion = ''pos''\<rparr>])
     = ([], [(''A'', [(''w1'', ''pos'')]), (''B'', [])])"
proof -
  have c: "collect_votes [\<lparr>tweet_id = ''A'', worker_id = ''w1'', emotion = ''pos''\<rparr>]
             = [(''A'', [(''w1'', ''pos'')])]"
    by (simp add: collect_votes_def wls_step_def dd_getitem_def append_at_def)
  have h: "''B'' \<notin> set (keys [(''A'', [(''w1'', ''pos'')])])"
    by (simp add: keys_def)
  show ?thesis
    using generator_absent_item_inserts_key [OF h] h
    by (simp add: c prod_eq_iff)
qed

lemma emotion_in_distinct_emotions:
  "r \<in> set rs \<Longrightarrow> emotion r \<in> set (distinct_emotions rs)"
  by (simp add: distinct_emotions_def)

text \<open>
  C4, as the code has it. The collector checks no label: every input row, whatever
  its label, is stored under its item and yielded unchanged by the generator. The
  label set \<^verbatim>\<open>values\<close> of the notebook is computed from the same rows, so every
  stored label belongs to it.
\<close>

theorem collect_votes_keeps_every_label:
  assumes "r \<in> set worker_labels"
  shows "(worker_id r, emotion r)
           \<in> set (fst (worker_label_generator (tweet_id r) (collect_votes worker_labels))) \<and>
         emotion r \<in> set (distinct_emotions worker_labels)"
proof -
  let ?vs = "votes_of (tweet_id r) worker_labels"
  have in_vs: "(worker_id r, emotion r) \<in> set ?vs"
    using assms by (auto simp: votes_of_def)
  then have "?vs \<noteq> []" by auto
  then have "map_of (collect_votes worker_labels) (tweet_id r) = Some ?vs"
    by (simp add: map_of_collect_votes)
  then have "fst (worker_label_generator (tweet_id r) (collect_votes worker_labels)) = ?vs"
    by (simp add: worker_label_generator_def dd_getitem_def)
  with in_vs show ?thesis
    using assms by (simp add: emotion_in_distinct_emotions)
qed

theorem collect_votes_keeps_every_label_witness:
  "(''w1'', ''bogus'')
     \<in> set (fst (worker_label_generator ''t1''
          (collect_votes [\<lparr>tweet_id = ''t1'', worker_id = ''w1'', emotion = ''bogus''\<rparr>]))) \<and>
   ''bogus'' \<in> set (distinct_emotions
          [\<lparr>tweet_id = ''t1'', worker_id = ''w1'', emotion = ''bogus''\<rparr>])"
  using collect_votes_keeps_every_label
    [of "\<lparr>tweet_id = ''t1'', worker_id = ''w1'', emotion = ''bogus''\<rparr>"
        "[\<lparr>tweet_id = ''t1'', worker_id = ''w1'', emotion = ''bogus''\<rparr>]"]
  by simp

text \<open>
  C4 as stated fails: a row whose label is none of the task's categories is collected
  like any other, and no condition is raised.
\<close>

theorem unknown_label_is_collected:
  "''bogus'' \<notin> set task_categories \<and>
   collect_votes [\<lparr>tweet_id = ''t1'', worker_id = ''w1'', emotion = ''bogus''\<rparr>]
     = [(''t1'', [(''w1'', ''bogus'')])]"
  by (simp add: task_categories_def collect_votes_def wls_step_def dd_getitem_def append_at_def)

section \<open>Properties of the counter and of the first maximum\<close>

lemma first_seen_snoc:
  "first_seen (xs @ [x]) = (if x \<in> set xs then first_seen xs else first_seen xs @ [x])"
  by (simp add: first_seen_def)

lemma set_first_seen: "set (first_seen xs) = set xs"
  by (simp add: first_seen_def)

lemma distinct_first_seen: "distinct (first_seen xs)"
  by (simp add: first_seen_def)

lemma first_seen_append:
  "first_seen (xs @ ys) = first_seen xs @ filter (\<lambda>y. y \<notin> set xs) (first_seen ys)"
proof (induction ys rule: rev_induct)
  case Nil
  show ?case by (simp add: first_seen_def)
next
  case (snoc y ys)
  have "first_seen (xs @ ys @ [y]) = first_seen ((xs @ ys) @ [y])" by simp
  also have "\<dots> = (if y \<in> set (xs @ ys) then first_seen (xs @ ys) else first_seen (xs @ ys) @ [y])"
    by (rule first_seen_snoc)
  finally show ?case
    by (simp add: snoc.IH first_seen_snoc)
qed

lemma map_of_dict_setitem: "map_of (dict_setitem k v d) = (map_of d)(k \<mapsto> v)"
  by (induction d) (auto simp: fun_eq_iff)

lemma dict_setitem_tabulate:
  "distinct ks \<Longrightarrow>
   dict_setitem x v (map (\<lambda>k. (k, f k)) ks) =
     (if x \<in> set ks then map (\<lambda>k. (k, if k = x then v else f k)) ks
      else map (\<lambda>k. (k, f k)) ks @ [(x, v)])"
  by (induction ks) auto

lemma map_of_tabulate:
  "map_of (map (\<lambda>k. (k, f k)) ks) x = (if x \<in> set ks then Some (f x) else None)"
  by (induction ks) auto

lemma Counter_snoc: "Counter (xs @ [x]) = count_element (Counter xs) x"
  by (simp add: Counter_def)

lemma Counter_tabulate:
  "Counter xs = map (\<lambda>k. (k, count_list xs k)) (first_seen xs)"
proof (induction xs rule: rev_induct)
  case Nil
  show ?case by (simp add: Counter_def first_seen_def)
next
  case (snoc x xs)
  show ?case
  proof (cases "x \<in> set xs")
    case True
    then show ?thesis
      by (simp add: Counter_snoc snoc.IH count_element_def dict_get_def map_of_tabulate
          dict_setitem_tabulate distinct_first_seen set_first_seen first_seen_snoc)
  next
    case False
    then show ?thesis
      by (auto simp add: Counter_snoc snoc.IH count_element_def dict_get_def map_of_tabulate
          dict_setitem_tabulate distinct_first_seen set_first_seen first_seen_snoc)
  qed
qed

lemma py_max_first:
  "(py_max key best xs = best \<and> (\<forall>x\<in>set xs. key x \<le> key best)) \<or>
   (\<exists>pre post. xs = pre @ py_max key best xs # post \<and> key best < key (py_max key best xs) \<and>
       (\<forall>x\<in>set pre. key x < key (py_max key best xs)) \<and>
       (\<forall>x\<in>set post. key x \<le> key (py_max key best xs)))"
proof (induction xs arbitrary: best)
  case Nil
  show ?case by simp
next
  case (Cons x xs)
  show ?case
  proof (cases "key x > key best")
    case True
    from Cons.IH [of x] show ?thesis
    proof
      assume a: "py_max key x xs = x \<and> (\<forall>y\<in>set xs. key y \<le> key x)"
      then have "x # xs = [] @ py_max key best (x # xs) # xs" using True by simp
      then show ?thesis using a True by (intro disjI2 exI[of _ "[]"] exI[of _ xs]) simp
    next
      assume "\<exists>pre post. xs = pre @ py_max key x xs # post \<and> key x < key (py_max key x xs) \<and>
       (\<forall>y\<in>set pre. key y < key (py_max key x xs)) \<and>
       (\<forall>y\<in>set post. key y \<le> key (py_max key x xs))"
      then obtain pre post where p: "xs = pre @ py_max key x xs # post" "key x < key (py_max key x xs)"
       "\<forall>y\<in>set pre. key y < key (py_max key x xs)"
       "\<forall>y\<in>set post. key y \<le> key (py_max key x xs)" by blast
      have "x # xs = (x # pre) @ py_max key best (x # xs) # post" using p(1) True by simp
      then show ?thesis using p True
        by (intro disjI2 exI[of _ "x # pre"] exI[of _ post]) auto
    qed
  next
    case False
    from Cons.IH [of best] show ?thesis
    proof
      assume a: "py_max key best xs = best \<and> (\<forall>y\<in>set xs. key y \<le> key best)"
      then show ?thesis using False by auto
    next
      assume "\<exists>pre post. xs = pre @ py_max key best xs # post \<and> key best < key (py_max key best xs) \<and>
       (\<forall>y\<in>set pre. key y < key (py_max key best xs)) \<and>
       (\<forall>y\<in>set post. key y \<le> key (py_max key best xs))"
      then obtain pre post where p: "xs = pre @ py_max key best xs # post" "key best < key (py_max key best xs)"
       "\<forall>y\<in>set pre. key y < key (py_max key best xs)"
       "\<forall>y\<in>set post. key y \<le> key (py_max key best xs)" by blast
      have "x # xs = (x # pre) @ py_max key best (x # xs) # post" using p(1) False by simp
      then show ?thesis using p False
        by (intro disjI2 exI[of _ "x # pre"] exI[of _ post]) auto
    qed
  qed
qed

lemma nlargest_1_first:
  assumes "it \<noteq> []"
  shows "\<exists>pre r post. nlargest_1 key it = [r] \<and> it = pre @ r # post \<and>
           (\<forall>x\<in>set pre. key x < key r) \<and> (\<forall>x\<in>set post. key x \<le> key r)"
proof -
  from assms obtain x xs where it: "it = x # xs" by (cases it) auto
  let ?r = "py_max key x xs"
  have n: "nlargest_1 key it = [?r]" by (simp add: it nlargest_1_def)
  from py_max_first [of key x xs] show ?thesis
  proof
    assume a: "?r = x \<and> (\<forall>y\<in>set xs. key y \<le> key x)"
    then have "it = [] @ ?r # xs" by (simp add: it)
    with n a show ?thesis by (metis empty_iff list.set(1))
  next
    assume "\<exists>pre post. xs = pre @ ?r # post \<and> key x < key ?r \<and>
       (\<forall>y\<in>set pre. key y < key ?r) \<and> (\<forall>y\<in>set post. key y \<le> key ?r)"
    then obtain pre post where p: "xs = pre @ ?r # post" "key x < key ?r"
       "\<forall>y\<in>set pre. key y < key ?r" "\<forall>y\<in>set post. key y \<le> key ?r" by blast
    have "it = (x # pre) @ ?r # post" using p(1) by (simp add: it)
    moreover have "\<forall>y\<in>set (x # pre). key y < key ?r" using p by simp
    ultimately show ?thesis using n p(4) by blast
  qed
qed

lemma first_seen_split:
  assumes "first_seen xs = kpre @ l # kpost"
  shows "\<exists>pre post. xs = pre @ l # post \<and> l \<notin> set pre \<and> set pre = set kpre"
proof -
  have "l \<in> set (first_seen xs)" by (simp add: assms)
  then have "l \<in> set xs" by (simp add: set_first_seen)
  then obtain pre post where xs: "xs = pre @ l # post" and l: "l \<notin> set pre"
    by (auto dest: split_list_first)
  let ?rest = "filter (\<lambda>y. y \<notin> set pre) (filter (\<lambda>y. y \<notin> set [l]) (first_seen post))"
  have "first_seen (l # post) = first_seen ([l] @ post)" by simp
  also have "\<dots> = l # filter (\<lambda>y. y \<notin> set [l]) (first_seen post)"
    unfolding first_seen_append by (simp add: first_seen_def)
  finally have "first_seen xs = first_seen pre @ l # ?rest"
    using l by (simp add: xs first_seen_append)
  then have eq: "first_seen pre @ l # ?rest = kpre @ l # kpost"
    using assms by simp
  have "l \<notin> set (first_seen pre)" using l by (simp add: set_first_seen)
  moreover have "l \<notin> set ?rest" by simp
  ultimately have "first_seen pre = kpre"
    using eq by (simp add: append_Cons_eq_iff)
  then have "set pre = set kpre" using set_first_seen [of pre] by simp
  with xs l show ?thesis by blast
qed

lemma majority_vote_Nil: "majority_vote [] = Inl IndexError"
  by (simp add: majority_vote_def Counter_def most_common_1_def nlargest_1_def getitem_def)

lemma majority_vote_first_max:
  assumes "votes \<noteq> []"
  shows "\<exists>l pre post. majority_vote votes = Inr l \<and> votes = pre @ l # post \<and> l \<notin> set pre \<and>
           (\<forall>l'\<in>set pre. count_list votes l' < count_list votes l) \<and>
           (\<forall>l'. count_list votes l' \<le> count_list votes l)"
proof -
  let ?g = "\<lambda>k. (k, count_list votes k)"
  let ?ks = "first_seen votes"
  have c: "Counter votes = map ?g ?ks" by (rule Counter_tabulate)
  have "set ?ks \<noteq> {}" using assms by (simp add: set_first_seen)
  then have "map ?g ?ks \<noteq> []" by auto
  from nlargest_1_first [OF this, of snd]
  obtain ipre r ipost where r: "nlargest_1 snd (map ?g ?ks) = [r]"
    and split: "map ?g ?ks = ipre @ r # ipost"
    and lt: "\<forall>x\<in>set ipre. snd x < snd r" and le: "\<forall>x\<in>set ipost. snd x \<le> snd r"
    by blast
  from split obtain kpre l kpost where ks: "?ks = kpre @ l # kpost"
    and ipre: "ipre = map ?g kpre" and rl: "r = ?g l" and ipost: "ipost = map ?g kpost"
    by (auto simp: map_eq_append_conv map_eq_Cons_conv append_eq_map_conv Cons_eq_map_conv)
  have mv: "majority_vote votes = Inr l"
    by (simp add: majority_vote_def most_common_1_def c r getitem_def rl)
  from first_seen_split [OF ks] obtain pre post
    where v: "votes = pre @ l # post" "l \<notin> set pre" "set pre = set kpre" by blast
  have pre_lt: "\<forall>l'\<in>set pre. count_list votes l' < count_list votes l"
    using lt v(3) by (simp add: ipre rl)
  have post_le: "\<forall>l'\<in>set kpost. count_list votes l' \<le> count_list votes l"
    using le by (simp add: ipost rl)
  have "count_list votes l' \<le> count_list votes l" for l'
  proof (cases "l' \<in> set votes")
    case True
    then have "l' \<in> set kpre \<or> l' = l \<or> l' \<in> set kpost"
      using ks set_first_seen [of votes] by auto
    then show ?thesis using pre_lt post_le v(3) by (auto simp: less_imp_le)
  next
    case False
    then show ?thesis by simp
  qed
  with mv v(1,2) pre_lt show ?thesis by blast
qed

lemma majority_vote_NilD: "majority_vote votes = Inr l \<Longrightarrow> votes \<noteq> []"
  by (auto simp: majority_vote_Nil)

lemma majority_vote_error: "majority_vote votes = Inl e \<longleftrightarrow> votes = [] \<and> e = IndexError"
proof (cases "votes = []")
  case True
  then show ?thesis by (auto simp: majority_vote_Nil)
next
  case False
  from majority_vote_first_max [OF this] show ?thesis using False by auto
qed

lemma row_votes_Nil_iff: "row_votes r = [] \<longleftrightarrow> snd ` set r \<subseteq> {0}"
  by (auto simp: row_votes_def nonzero_cols_def filter_empty_conv)


lemmas vote_eval = majority_vote_def Counter_def count_element_def dict_get_def
  most_common_1_def nlargest_1_def getitem_def

lemma mv_loop_error:
  "r \<in> set L \<Longrightarrow> row_votes r = [] \<Longrightarrow> mv_loop L acc = Inl IndexError"
proof (induction L arbitrary: acc)
  case Nil
  then show ?case by simp
next
  case (Cons a L)
  show ?case
  proof (cases "majority_vote (row_votes a)")
    case (Inl e)
    then have "e = IndexError" by (simp add: majority_vote_error)
    with Inl show ?thesis by simp
  next
    case (Inr l)
    then have "row_votes a \<noteq> []" by (rule majority_vote_NilD)
    with Cons.prems have "r \<in> set L" by auto
    with Cons.IH Cons.prems(2) Inr show ?thesis by simp
  qed
qed

lemma mv_loop_result:
  "\<forall>r\<in>set L. row_votes r \<noteq> [] \<Longrightarrow>
   \<exists>ests. mv_loop L acc = Inr (acc @ ests) \<and> length ests = length L \<and>
          (\<forall>i<length L. majority_vote (row_votes (L ! i)) = Inr (ests ! i))"
proof (induction L arbitrary: acc)
  case Nil
  then show ?case by simp
next
  case (Cons a L)
  then have "row_votes a \<noteq> []" by simp
  from majority_vote_first_max [OF this] obtain l
    where l: "majority_vote (row_votes a) = Inr l" by blast
  from Cons.prems have "\<forall>r\<in>set L. row_votes r \<noteq> []" by simp
  from Cons.IH [OF this, of "acc @ [l]"] obtain ests
    where e: "mv_loop L (acc @ [l]) = Inr ((acc @ [l]) @ ests)" "length ests = length L"
      "\<forall>i<length L. majority_vote (row_votes (L ! i)) = Inr (ests ! i)" by blast
  have "\<forall>i<length (a # L). majority_vote (row_votes ((a # L) ! i)) = Inr ((l # ests) ! i)"
    using l e(3) by (auto simp: nth_Cons split: nat.splits)
  moreover have "mv_loop (a # L) acc = Inr (acc @ l # ests)" using l e(1) by simp
  ultimately show ?case using e(2) by (intro exI [of _ "l # ests"]) simp
qed

lemma first_index_split: "x \<notin> set pre \<Longrightarrow> first_index (pre @ x # post) x = length pre"
  by (induction pre) (auto simp: first_index_def)

lemma first_index_later:
  "y \<notin> set pre \<Longrightarrow> y \<noteq> x \<Longrightarrow> length pre < first_index (pre @ x # post) y"
  by (induction pre) (auto simp: first_index_def)

section \<open>Properties of the accuracy loop\<close>

lemma row_votes_zeros: "snd ` set r \<subseteq> {0} \<Longrightarrow> row_votes r = []"
  by (simp add: row_votes_Nil_iff)

lemma correct_ones_error:
  "i \<in> set is \<Longrightarrow> \<not> (i < length mv \<and> i < length g) \<Longrightarrow> correct_ones mv g is = Inl IndexError"
proof (induction "is")
  case Nil
  then show ?case by simp
next
  case (Cons a "is")
  show ?case
  proof (cases "a < length mv \<and> a < length g")
    case True
    with Cons.prems have "i \<in> set is" by auto
    with Cons.IH Cons.prems(2) have "correct_ones mv g is = Inl IndexError" by simp
    with True show ?thesis by (simp add: getitem_def)
  next
    case False
    then show ?thesis by (auto simp: getitem_def)
  qed
qed

lemma correct_ones_result:
  "\<forall>i\<in>set is. i < length mv \<and> i < length g \<Longrightarrow>
   \<exists>ones. correct_ones mv g is = Inr ones \<and>
          sum_list ones = length (filter (\<lambda>i. mv ! i = g ! i) is)"
  by (induction "is") (auto simp: getitem_def)

lemma n_correct_result:
  "n \<le> length mv \<Longrightarrow> n \<le> length g \<Longrightarrow>
   n_correct mv g n = Inr (length (filter (\<lambda>i. mv ! i = g ! i) [0..<n]))"
  using correct_ones_result [of "[0..<n]" mv g] by (auto simp: n_correct_def)

lemma n_correct_error: "length g < n \<Longrightarrow> n_correct mv g n = Inl IndexError"
  using correct_ones_error [of "length g" "[0..<n]" mv g] by (simp add: n_correct_def)

lemma mv_accuracy_no_votes:
  "r \<in> set L \<Longrightarrow> row_votes r = [] \<Longrightarrow> mv_accuracy L g = Inl IndexError"
  by (simp add: mv_accuracy_def mv_loop_error)

lemma mv_accuracy_result:
  assumes "\<forall>r\<in>set L. row_votes r \<noteq> []"
  shows "\<exists>mv. mv_loop L [] = Inr mv \<and> length mv = length L \<and>
           (\<forall>i<length L. majority_vote (row_votes (L ! i)) = Inr (mv ! i)) \<and>
           mv_accuracy L g =
             (if length g < length L then Inl IndexError
              else Inr (np_true_divide (length (filter (\<lambda>i. mv ! i = g ! i) [0..<length L]))
                          (length L)))"
proof -
  from mv_loop_result [OF assms, of "[]"] obtain mv
    where mv: "mv_loop L [] = Inr mv" "length mv = length L"
      "\<forall>i<length L. majority_vote (row_votes (L ! i)) = Inr (mv ! i)" by auto
  have "mv_accuracy L g =
             (if length g < length L then Inl IndexError
              else Inr (np_true_divide (length (filter (\<lambda>i. mv ! i = g ! i) [0..<length L]))
                          (length L)))"
  proof (cases "length g < length L")
    case True
    then show ?thesis by (simp add: mv_accuracy_def mv n_correct_error)
  next
    case False
    then have "n_correct mv g (length L) = Inr (length (filter (\<lambda>i. mv ! i = g ! i) [0..<length L]))"
      using mv(2) by (intro n_correct_result) simp_all
    with False show ?thesis by (simp add: mv_accuracy_def mv)
  qed
  with mv show ?thesis by blast
qed


lemma np_true_divide_NaN_iff: "np_true_divide a n = NaN \<longleftrightarrow> n = 0 \<and> a = 0"
  by (simp add: np_true_divide_def)

lemma mv_accuracy_Nil: "mv_accuracy [] g = Inr NaN"
  by (simp add: mv_accuracy_def n_correct_def np_true_divide_def)

lemma bit_length_0: "bit_length 0 = 0"
  by (subst bit_length.simps) simp

lemma bit_length_pos: "0 < n \<Longrightarrow> bit_length n = Suc (bit_length (n div 2))"
  by (subst bit_length.simps) simp

lemmas float_eval = np_true_divide_def float_div_def float_of_nat_def round_half_even_def
  bit_length_0 bit_length_pos Let_def

lemma float_div_third: "float_div 1 3 = 6004799503160661 / 18014398509481984"
  by (simp add: float_eval)

lemma gold_labels_loop_length:
  "gold_labels_loop vs d cands acc = Inr g \<Longrightarrow> length g = length acc + length cands"
  by (induction cands arbitrary: acc) (auto split: sum.splits)

lemma gold_labels_length:
  "gold_labels vs gold_answers cands0 cands1 = Inr (train_cand_labels, test_cand_labels) \<Longrightarrow>
   length train_cand_labels = length cands0"
  by (auto simp: gold_labels_def Let_def split: sum.splits dest: gold_labels_loop_length)







text \<open>The accuracy in the notebook's saved output, 0.9823943661971831, is 558 of 568.\<close>

lemma np_true_divide_saved_output:
  "np_true_divide 558 568 = Finite (8848621803073017 / 9007199254740992)"
  by (simp add: float_eval)

section \<open>Properties of the majority vote\<close>

text \<open>
  C5. On a list of votes that is not empty the majority vote returns a label of the
  list whose number of votes is the greatest among all labels. For one label
  repeated \<open>n \<ge> 1\<close> times it is that label, and for the votes
  (w1, pos), (w2, pos), (w3, neg) it is pos.
\<close>

theorem majority_vote_plurality:
  "(votes \<noteq> [] \<longrightarrow>
      (\<exists>l. majority_vote votes = Inr l \<and> l \<in> set votes \<and>
           (\<forall>l'. count_list votes l' \<le> count_list votes l))) \<and>
   (0 < n \<longrightarrow> majority_vote (replicate n x) = Inr x) \<and>
   majority_vote (map snd [(''w1'', ''pos''), (''w2'', ''pos''), (''w3'', ''neg'')]) = Inr ''pos''"
proof (intro conjI impI)
  assume "votes \<noteq> []"
  from majority_vote_first_max [OF this]
  show "\<exists>l. majority_vote votes = Inr l \<and> l \<in> set votes \<and>
           (\<forall>l'. count_list votes l' \<le> count_list votes l)"
    by auto
next
  assume "0 < n"
  then have "replicate n x \<noteq> []" by simp
  from majority_vote_first_max [OF this] obtain l pre post
    where l: "majority_vote (replicate n x) = Inr l" and eq: "replicate n x = pre @ l # post"
    by blast
  have "l \<in> set (replicate n x)" unfolding eq by simp
  then have "l = x" by simp
  with l show "majority_vote (replicate n x) = Inr x" by simp
next
  show "majority_vote (map snd [(''w1'', ''pos''), (''w2'', ''pos''), (''w3'', ''neg'')]) = Inr ''pos''"
    by (simp add: majority_vote_def Counter_def count_element_def dict_get_def
        most_common_1_def nlargest_1_def getitem_def)
qed

theorem majority_vote_plurality_witness:
  "majority_vote [1 :: int, 2, 2] = Inr 2 \<and> majority_vote (replicate 3 (5 :: int)) = Inr 5"
proof -
  from majority_vote_plurality [of "[1 :: int, 2, 2]" 3 5]
  obtain l where l: "majority_vote [1 :: int, 2, 2] = Inr l" "l \<in> set [1, 2, 2]"
      "\<forall>l'. count_list [1 :: int, 2, 2] l' \<le> count_list [1, 2, 2] l"
    and r: "majority_vote (replicate 3 (5 :: int)) = Inr 5" by auto
  from l(3) have "count_list [1 :: int, 2, 2] 2 \<le> count_list [1, 2, 2] l" by blast
  with l(2) have "l = 2" by (auto split: if_splits)
  with l(1) r show ?thesis by simp
qed

text \<open>
  C9. The tie-break of the majority vote. For every list of votes that is not empty a
  label is returned; it has the greatest number of votes, and every other label with
  as many votes occurs for the first time later in the list. So the estimate of a
  tied list depends on its order: the votes 3, 1, 1, 2, 2 give 1 and the same votes
  in the order 3, 2, 2, 1, 1 give 2.
\<close>

theorem majority_vote_tie_break:
  "(votes \<noteq> [] \<longrightarrow>
      (\<exists>l. majority_vote votes = Inr l \<and>
           l \<in> set votes \<and>
           (\<forall>l'. count_list votes l' \<le> count_list votes l) \<and>
           (\<forall>l'. l' \<noteq> l \<and> count_list votes l' = count_list votes l
                  \<longrightarrow> first_index votes l < first_index votes l'))) \<and>
   majority_vote [3 :: int, 1, 1, 2, 2] = Inr 1 \<and>
   majority_vote [3 :: int, 2, 2, 1, 1] = Inr 2 \<and>
   mset [3 :: int, 2, 2, 1, 1] = mset [3, 1, 1, 2, 2]"
proof (intro conjI impI)
  assume "votes \<noteq> []"
  from majority_vote_first_max [OF this] obtain l pre post
    where m: "majority_vote votes = Inr l"
      and v: "votes = pre @ l # post" "l \<notin> set pre"
      "\<forall>l'\<in>set pre. count_list votes l' < count_list votes l"
      "\<forall>l'. count_list votes l' \<le> count_list votes l" by blast
  have "first_index votes l < first_index votes l'"
    if t: "l' \<noteq> l \<and> count_list votes l' = count_list votes l" for l'
  proof -
    from t have "l' \<notin> set pre" using v(3) by auto
    then have "length pre < first_index (pre @ l # post) l'"
      using t by (simp add: first_index_later)
    moreover have "first_index (pre @ l # post) l = length pre"
      using v(2) by (rule first_index_split)
    ultimately show ?thesis by (simp add: v(1))
  qed
  moreover have "l \<in> set votes" using v(1) by simp
  ultimately show "\<exists>l. majority_vote votes = Inr l \<and>
           l \<in> set votes \<and>
           (\<forall>l'. count_list votes l' \<le> count_list votes l) \<and>
           (\<forall>l'. l' \<noteq> l \<and> count_list votes l' = count_list votes l
                  \<longrightarrow> first_index votes l < first_index votes l')"
    using m v(4) by blast
next
  show "majority_vote [3 :: int, 1, 1, 2, 2] = Inr 1"
    by (simp add: vote_eval)
  show "majority_vote [3 :: int, 2, 2, 1, 1] = Inr 2"
    by (simp add: vote_eval)
  show "mset [3 :: int, 2, 2, 1, 1] = mset [3, 1, 1, 2, 2]" by simp
qed

theorem majority_vote_tie_break_witness:
  "majority_vote [3 :: int, 1, 1, 2, 2] = Inr 1"
proof -
  let ?v = "[3 :: int, 1, 1, 2, 2]"
  have ne: "?v \<noteq> []" by simp
  note t = majority_vote_tie_break [of ?v, THEN conjunct1, rule_format, OF ne]
  from t obtain l where m: "majority_vote ?v = Inr l" and mem: "l \<in> set ?v"
    and mx: "\<forall>l'. count_list ?v l' \<le> count_list ?v l"
    and tb: "\<forall>l'. l' \<noteq> l \<and> count_list ?v l' = count_list ?v l
                  \<longrightarrow> first_index ?v l < first_index ?v l'"
    by blast
  from mem have cases: "l = 3 \<or> l = 1 \<or> l = 2" by auto
  have "l \<noteq> 3"
  proof
    assume "l = 3"
    with mx have "count_list ?v 1 \<le> count_list ?v 3" by blast
    then show False by simp
  qed
  moreover have "l \<noteq> 2"
  proof
    assume l2: "l = 2"
    from tb have "1 \<noteq> l \<and> count_list ?v 1 = count_list ?v l
                  \<longrightarrow> first_index ?v l < first_index ?v 1" by blast
    then show False by (simp add: l2 first_index_def)
  qed
  ultimately have "l = 1" using cases by blast
  with m show ?thesis by simp
qed

text \<open>
  C3. The majority vote of an item without votes produces no label: indexing the empty
  result of \<^verbatim>\<open>most_common(1)\<close> raises IndexError. This is the only failure of the
  majority vote, so it fails exactly on the empty list of votes. A row of the label
  matrix whose stored values are all 0 is such a list, and one such row makes the
  whole accuracy cell end in that IndexError.
\<close>

theorem no_votes_raises_IndexError:
  "(majority_vote votes = Inl IndexError \<longleftrightarrow> votes = []) \<and>
   (isl (majority_vote votes) \<longleftrightarrow> votes = []) \<and>
   (snd ` set r \<subseteq> {0} \<longrightarrow> row_votes r = []) \<and>
   (r \<in> set L_train \<and> row_votes r = []
      \<longrightarrow> mv_accuracy L_train train_cand_labels = Inl IndexError)"
proof (intro conjI impI)
  show "majority_vote votes = Inl IndexError \<longleftrightarrow> votes = []"
    by (simp add: majority_vote_error)
  show "isl (majority_vote votes) \<longleftrightarrow> votes = []"
    by (cases "majority_vote votes")
       (auto simp: majority_vote_error majority_vote_Nil dest: majority_vote_NilD)
  show "row_votes r = []" if "snd ` set r \<subseteq> {0}"
    using that by (rule row_votes_zeros)
  show "mv_accuracy L_train train_cand_labels = Inl IndexError"
    if "r \<in> set L_train \<and> row_votes r = []"
    using that mv_accuracy_no_votes [of r L_train train_cand_labels] by simp
qed

theorem no_votes_raises_IndexError_witness:
  "row_votes [(0, 0), (3, 0)] = [] \<and>
   mv_accuracy [[(0, 1)], [(0, 0), (3, 0)]] [1, 2] = Inl IndexError"
proof -
  note t = no_votes_raises_IndexError
    [of "[] :: int list" "[(0, 0), (3, 0)]" "[[(0, 1)], [(0, 0), (3, 0)]]" "[1, 2]"]
  have z: "row_votes [(0, 0), (3, 0)] = []"
    by (rule t [THEN conjunct2, THEN conjunct2, THEN conjunct1, rule_format]) simp
  have "mv_accuracy [[(0, 1)], [(0, 0), (3, 0)]] [1, 2] = Inl IndexError"
    by (rule t [THEN conjunct2, THEN conjunct2, THEN conjunct2, rule_format]) (simp add: z)
  with z show ?thesis by simp
qed

section \<open>Properties of the accuracy\<close>

text \<open>
  C1, as the code has it. The accuracy cell has no case of its own for a label matrix
  without rows: it divides all the same, and numpy's division of 0.0 by 0.0 raises
  nothing and gives \<^verbatim>\<open>nan\<close>. The printed accuracy is \<^verbatim>\<open>nan\<close> exactly when the matrix
  has no rows.
\<close>

theorem mv_accuracy_NaN_iff:
  "mv_accuracy L_train train_cand_labels = Inr NaN \<longleftrightarrow> L_train = []"
proof (cases "L_train = []")
  case True
  then show ?thesis by (simp add: mv_accuracy_Nil)
next
  case False
  show ?thesis
  proof (cases "\<forall>r\<in>set L_train. row_votes r \<noteq> []")
    case True
    from mv_accuracy_result [OF this, of train_cand_labels] False
    show ?thesis by (auto simp: np_true_divide_NaN_iff split: if_splits)
  next
    case False
    then obtain r where "r \<in> set L_train" "row_votes r = []" by blast
    then have "mv_accuracy L_train train_cand_labels = Inl IndexError"
      by (rule mv_accuracy_no_votes)
    then show ?thesis using \<open>L_train \<noteq> []\<close> by simp
  qed
qed

theorem mv_accuracy_NaN_iff_witness: "mv_accuracy [] [1, 2] = Inr NaN"
  using mv_accuracy_NaN_iff [of "[]" "[1, 2]"] by simp

text \<open>
  C1 as stated fails: without rows no condition is raised, the cell ends normally
  and its accuracy is the \<^verbatim>\<open>nan\<close> of the division by zero.
\<close>

theorem mv_accuracy_no_rows_is_NaN:
  "mv_accuracy [] [] = Inr NaN \<and> \<not> isl (mv_accuracy [] [])"
  by (simp add: mv_accuracy_def n_correct_def np_true_divide_def)







end
